theory Spec2Isabelle
  imports Main
begin

section \<open>The signaling broker of hookup (src/peer/Broker.js)\<close>

text \<open>
  The broker is event driven: every piece of behaviour is a callback that runs when the
  relay socket, the transacted channel or a peer-connection capability (SimplePeer)
  delivers an event. The embedding keeps the state the callbacks read and write in one
  record per object or closure, turns every callback into a function on that state, and
  feeds the callbacks from a list of events (\<open>run\<close>). The environment is not constrained:
  a theorem about all event lists covers every order in which the socket, the remote side
  and the capabilities can deliver their events.

  Outside Broker.js, and therefore assumed rather than verified:
  \<^item> \<open>Promise\<close> is the ECMAScript promise: its first resolve or reject settles it, every
    later call is a no-op;
  \<^item> \<open>Emitter\<close>: \<open>on\<close> keeps a listener, \<open>once\<close> removes it when it has run once,
    listeners run in the order of registration;
  \<^item> \<open>new SimplePeer\<close>, \<open>socket.send\<close> and \<open>socket.close\<close> return normally;
  \<^item> \<open>peer.signal\<close> records its argument and returns. Where it is called in the
    \<open>.then\<close> callback of a request, an exception would reach the \<open>.catch\<close> callback
    chained behind it exactly as a failure of the request does; the failure response
    of the channel (\<open>Response cid (Inl e)\<close> below) stands for both.
\<close>

subsection \<open>Values\<close>

type_synonym peer_id = string

datatype err = Error string | TypeError string

text \<open>A session description: the broker reads its \<open>type\<close> and nothing else.\<close>

record signal_data =
  sd_type :: string
  sd_body :: string

text \<open>The payload of a signaling request, \<open>{type, from, to, offer}\<close>.\<close>

record message =
  msg_type :: string
  msg_from :: peer_id
  msg_to :: peer_id
  msg_offer :: signal_data

subsection \<open>Promises\<close>

datatype 'a settlement = Pending | Fulfilled 'a | Rejected err

text \<open>
  \<open>state\<close> is what an observer of the promise sees. \<open>settle_calls\<close> counts the invocations
  of the promise's resolve and reject functions; it is not observable in JavaScript and is
  kept to tell a settlement guarded by the code from one absorbed by the promise.
\<close>

record 'a promise =
  state :: "'a settlement"
  settle_calls :: nat

definition new_promise :: "'a promise" where
  "new_promise = \<lparr>state = Pending, settle_calls = 0\<rparr>"

definition resolve :: "'a \<Rightarrow> 'a promise \<Rightarrow> 'a promise" where
  "resolve v p =
     \<lparr>state = (case state p of Pending \<Rightarrow> Fulfilled v | s \<Rightarrow> s),
      settle_calls = Suc (settle_calls p)\<rparr>"

definition reject :: "err \<Rightarrow> 'a promise \<Rightarrow> 'a promise" where
  "reject e p =
     \<lparr>state = (case state p of Pending \<Rightarrow> Rejected e | s \<Rightarrow> s),
      settle_calls = Suc (settle_calls p)\<rparr>"

subsection \<open>The peer-connection capability\<close>

text \<open>
  The options object given to \<open>new SimplePeer\<close>. \<open>iceServers\<close> is \<open>None\<close> when the
  options have no \<open>config\<close>; otherwise it lists the \<open>urls\<close> of every server entry.
\<close>

record peer_config =
  initiator :: bool
  trickle :: bool
  iceServers :: "string list list option"

text \<open>What the broker can tell about a capability: its options and the descriptions fed
  to it with \<open>peer.signal\<close>, oldest first.\<close>

record capability =
  config :: peer_config
  signalled :: "signal_data list"

definition SimplePeer :: "peer_config \<Rightarrow> capability" where
  "SimplePeer opts = \<lparr>config = opts, signalled = []\<rparr>"

definition signal :: "signal_data \<Rightarrow> capability \<Rightarrow> capability" where
  "signal d p = p\<lparr>signalled := signalled p @ [d]\<rparr>"

definition TRICKLE :: bool where
  "TRICKLE = False"

text \<open>The events a capability emits that the broker listens to.\<close>

datatype peer_event = PSignal signal_data | PConnect | PError err

subsection \<open>Connections\<close>

text \<open>
  A capability and its readiness promise live in the closure of the call that created
  them; \<open>Initiated k\<close> addresses those of the k-th \<open>initiateConnection\<close> call,
  \<open>Accepted k\<close> those of the k-th \<open>_acceptConnection\<close> call.
\<close>

datatype ref = Initiated nat | Accepted nat

text \<open>\<open>new Connection(id, peer, ready)\<close>: the three constructor arguments. The class itself
  (src/peer/Connection.js) is not part of the verified source.\<close>

record connection =
  conn_id :: peer_id
  conn_peer :: ref
  conn_ready :: ref

subsection \<open>The closure of one \<open>initiateConnection\<close> call\<close>

record initiation =
  i_from :: peer_id
  i_to :: peer_id
  i_peer :: capability
  i_ready :: "unit promise"
  i_connecting :: bool
  i_error_once :: bool
  i_connect_once :: bool

text \<open>\<open>peer.once('error', ...)\<close>, lines 119-124.\<close>

definition init_on_error :: "err \<Rightarrow> initiation \<Rightarrow> initiation" where
  "init_on_error e c =
     (if i_error_once c then
        (let c' = c\<lparr>i_error_once := False\<rparr> in
         if i_connecting c' then c'\<lparr>i_connecting := False, i_ready := reject e (i_ready c')\<rparr>
         else c')
      else c)"

text \<open>\<open>peer.once('connect', ...)\<close>, lines 146-153.\<close>

definition init_on_connect :: "initiation \<Rightarrow> initiation" where
  "init_on_connect c =
     (if i_connect_once c then
        (let c' = c\<lparr>i_connect_once := False\<rparr> in
         if i_connecting c' then c'\<lparr>i_connecting := False, i_ready := resolve () (i_ready c')\<rparr>
         else c')
      else c)"

text \<open>The \<open>.then\<close> callback of the connect request, lines 133-136.\<close>

definition request_then :: "signal_data \<Rightarrow> initiation \<Rightarrow> initiation" where
  "request_then answer c = c\<lparr>i_peer := signal answer (i_peer c)\<rparr>"

text \<open>The \<open>.catch\<close> callback of the connect request, lines 137-142.\<close>

definition request_catch :: "err \<Rightarrow> initiation \<Rightarrow> initiation" where
  "request_catch e c =
     (if i_connecting c then c\<lparr>i_connecting := False, i_ready := reject e (i_ready c)\<rparr>
      else c)"

subsection \<open>The closure of one \<open>_acceptConnection\<close> call\<close>

record acceptance =
  a_message :: message
  a_peer :: capability
  a_result :: "signal_data promise"
  a_connecting :: bool
  a_ready :: "ref promise"
  a_done :: bool
  a_connect_once :: bool
  a_ready_error_once :: bool
  a_reject_once :: bool

text \<open>\<open>peer.once('connect', ...)\<close> of the readiness promise, lines 177-181.\<close>

definition ready_on_connect :: "nat \<Rightarrow> acceptance \<Rightarrow> acceptance" where
  "ready_on_connect k c =
     (if a_connect_once c then
        c\<lparr>a_connect_once := False, a_done := True, a_ready := resolve (Accepted k) (a_ready c)\<rparr>
      else c)"

text \<open>\<open>peer.once('error', ...)\<close> of the readiness promise, lines 183-187.\<close>

definition ready_on_error :: "err \<Rightarrow> acceptance \<Rightarrow> acceptance" where
  "ready_on_error e c =
     (if a_ready_error_once c then
        (let c' = c\<lparr>a_ready_error_once := False\<rparr> in
         if \<not> a_done c' then c'\<lparr>a_ready := reject e (a_ready c')\<rparr> else c')
      else c)"

text \<open>\<open>peer.on('signal', ...)\<close>, lines 190-200.\<close>

definition accept_on_signal :: "signal_data \<Rightarrow> acceptance \<Rightarrow> acceptance" where
  "accept_on_signal d c =
     (if sd_type d = ''answer'' then
        (if a_connecting c then c\<lparr>a_connecting := False, a_result := resolve d (a_result c)\<rparr>
         else c)
      else c)"

text \<open>\<open>peer.once('error', reject)\<close>, line 202.\<close>

definition once_error_reject :: "err \<Rightarrow> acceptance \<Rightarrow> acceptance" where
  "once_error_reject e c =
     (if a_reject_once c then c\<lparr>a_reject_once := False, a_result := reject e (a_result c)\<rparr>
      else c)"

text \<open>\<open>peer.on('error', ...)\<close>, lines 204-210.\<close>

definition accept_on_error :: "err \<Rightarrow> acceptance \<Rightarrow> acceptance" where
  "accept_on_error e c =
     (if a_connecting c then c\<lparr>a_connecting := False, a_result := reject e (a_result c)\<rparr>
      else c)"

text \<open>The capability of the k-th acceptance emits an event: its listeners run in the order
  in which \<open>_acceptConnection\<close> registered them.\<close>

fun accept_emit :: "nat \<Rightarrow> peer_event \<Rightarrow> acceptance \<Rightarrow> acceptance" where
  "accept_emit k PConnect c = ready_on_connect k c"
| "accept_emit k (PError e) c = accept_on_error e (once_error_reject e (ready_on_error e c))"
| "accept_emit k (PSignal d) c = accept_on_signal d c"

subsection \<open>The broker\<close>

text \<open>The relay socket (\<open>ReconnectingWebSocket\<close>) as the broker uses it: what was handed to
  \<open>send\<close>, and whether \<open>close\<close> was called.\<close>

record envelope =
  env_id :: nat
  env_message :: message

record socket =
  ws_url :: string
  ws_sent :: "envelope list"
  ws_closed :: bool

definition ReconnectingWebSocket :: "string \<Rightarrow> socket" where
  "ReconnectingWebSocket u = \<lparr>ws_url = u, ws_sent = [], ws_closed = False\<rparr>"

text \<open>What the broker emits to its observers with \<open>this.emit\<close>, oldest first.\<close>

datatype emitted_event = EmitOpen | EmitClose | EmitError err | EmitConnection connection

text \<open>
  \<open>next_id\<close> and \<open>pending\<close> are the state of the transacted channel
  \<open>this.connection = requestify()\<close>: the next correlation id and, for every request that
  awaits its response, the initiation whose \<open>.then\<close>/\<open>.catch\<close> callbacks hang on it.
  \<open>connecting\<close> is the flag of the closure of \<open>this.ready\<close> (line 53).
\<close>

record broker =
  url :: string
  socket :: socket
  next_id :: nat
  pending :: "(nat \<times> nat) list"
  emitted :: "emitted_event list"
  ready :: "unit promise"
  connecting :: bool
  initiations :: "initiation list"
  acceptances :: "acceptance list"

text \<open>The constructor, lines 20-82, once the executor of \<open>this.ready\<close> has run.\<close>

definition Broker :: "string \<Rightarrow> broker" where
  "Broker u =
     \<lparr>url = u, socket = ReconnectingWebSocket u, next_id = 0, pending = [], emitted = [],
      ready = new_promise, connecting = True, initiations = [], acceptances = []\<rparr>"

text \<open>\<open>this.socket.onopen\<close>, lines 54-63.\<close>

definition socket_onopen :: "broker \<Rightarrow> broker" where
  "socket_onopen b =
     (let b' = b\<lparr>emitted := emitted b @ [EmitOpen]\<rparr> in
      if connecting b' then b'\<lparr>connecting := False, ready := resolve () (ready b')\<rparr> else b')"

text \<open>\<open>this.socket.onclose\<close>, lines 65-68.\<close>

definition socket_onclose :: "broker \<Rightarrow> broker" where
  "socket_onclose b = b\<lparr>emitted := emitted b @ [EmitClose]\<rparr>"

text \<open>\<open>this.socket.onerror\<close>, lines 70-80.\<close>

definition socket_onerror :: "err \<Rightarrow> broker \<Rightarrow> broker" where
  "socket_onerror e b =
     (if connecting b then b\<lparr>connecting := False, ready := reject e (ready b)\<rparr>
      else b\<lparr>emitted := emitted b @ [EmitError e]\<rparr>)"

text \<open>\<open>close()\<close>, lines 219-221.\<close>

definition close :: "broker \<Rightarrow> broker" where
  "close b = b\<lparr>socket := (socket b)\<lparr>ws_closed := True\<rparr>\<rparr>"

text \<open>Running a callback on the closure stored at index \<open>k\<close>; there is no closure to run
  when \<open>k\<close> addresses none.\<close>

definition modify :: "nat \<Rightarrow> ('a \<Rightarrow> 'a) \<Rightarrow> 'a list \<Rightarrow> 'a list" where
  "modify k f xs = (if k < length xs then xs[k := f (xs ! k)] else xs)"

subsection \<open>The transacted channel\<close>

text \<open>
  Modelled from the spec: \<open>requestify\<close> (src/shared/requestify.js) is missing from the
  source. Section 4.1: \<open>request(message)\<close> "assigns a fresh, locally-unique correlation id,
  serializes \<open>{id, message}\<close>, records a PendingTransaction, forwards it, and returns a
  handle that settles when a matching response envelope arrives"; "late or duplicate
  responses for a completed/removed correlation id are discarded". Forwarding goes through
  \<open>this.connection.send\<close>, which Broker.js sets to \<open>this.socket.send\<close> (lines 30-33).
  The handle is the correlation id; \<open>k\<close> is the initiation that waits for it.
\<close>

definition request :: "message \<Rightarrow> nat \<Rightarrow> broker \<Rightarrow> broker" where
  "request m k b =
     b\<lparr>socket := (socket b)\<lparr>ws_sent := ws_sent (socket b) @ [\<lparr>env_id = next_id b, env_message = m\<rparr>]\<rparr>,
       pending := (next_id b, k) # pending b,
       next_id := Suc (next_id b)\<rparr>"

text \<open>Modelled from the spec: the inbound dispatch of \<open>requestify\<close>, for an envelope that
  "carries a correlation id matching a PendingTransaction": "settle it with the carried
  payload (success or carried error) and remove it". \<open>Inr\<close> carries the answer, \<open>Inl\<close> the
  failure; an id that matches no pending transaction is discarded. Settling the
  transaction runs the callbacks that \<open>initiateConnection\<close> chained to the request
  (lines 133-142), on the closure of that initiation.\<close>

definition receive_response :: "nat \<Rightarrow> err + signal_data \<Rightarrow> broker \<Rightarrow> broker" where
  "receive_response cid r b =
     (case map_of (pending b) cid of
        None \<Rightarrow> b
      | Some k \<Rightarrow>
          b\<lparr>pending := filter (\<lambda>p. fst p \<noteq> cid) (pending b),
            initiations :=
              modify k (case r of Inr answer \<Rightarrow> request_then answer | Inl e \<Rightarrow> request_catch e)
                (initiations b)\<rparr>)"

subsection \<open>\<open>initiateConnection\<close>\<close>

definition stun_servers :: "string list list" where
  "stun_servers =
     [[''stun:stun.l.google.com:19302'', ''stun:stun1.l.google.com:19302'',
       ''stun:stun2.l.google.com:19302'', ''stun:stun3.l.google.com:19302'',
       ''stun:stun4.l.google.com:19302'']]"

text \<open>Lines 90-157, up to the \<open>return\<close>: the capability is created, the executor of
  \<open>ready\<close> registers the three listeners, the Connection is returned.\<close>

definition initiateConnection :: "peer_id \<Rightarrow> peer_id \<Rightarrow> broker \<Rightarrow> connection \<times> broker" where
  "initiateConnection from_id to_id b =
     (let k = length (initiations b);
          peer = SimplePeer \<lparr>initiator = True, trickle = TRICKLE, iceServers = Some stun_servers\<rparr>;
          c = \<lparr>i_from = from_id, i_to = to_id, i_peer = peer, i_ready = new_promise,
               i_connecting = True, i_error_once = True, i_connect_once = True\<rparr>
      in (\<lparr>conn_id = to_id, conn_peer = Initiated k, conn_ready = Initiated k\<rparr>,
          b\<lparr>initiations := initiations b @ [c]\<rparr>))"

text \<open>\<open>peer.on('signal', ...)\<close> of the k-th initiation, lines 126-144: an offer is sent as a
  connect request; the callbacks chained to the request run in \<open>receive_response\<close>.\<close>

definition init_on_signal :: "nat \<Rightarrow> signal_data \<Rightarrow> broker \<Rightarrow> broker" where
  "init_on_signal k d b =
     (if sd_type d = ''offer'' then
        (let c = initiations b ! k;
             m = \<lparr>msg_type = ''connect'', msg_from = i_from c, msg_to = i_to c, msg_offer = d\<rparr>
         in request m k b)
      else b)"

text \<open>The capability of the k-th initiation emits an event.\<close>

fun init_emit :: "nat \<Rightarrow> peer_event \<Rightarrow> broker \<Rightarrow> broker" where
  "init_emit k (PError e) b = b\<lparr>initiations := modify k (init_on_error e) (initiations b)\<rparr>"
| "init_emit k (PSignal d) b = init_on_signal k d b"
| "init_emit k PConnect b = b\<lparr>initiations := modify k init_on_connect (initiations b)\<rparr>"

subsection \<open>\<open>_acceptConnection\<close> and the request handler\<close>

text \<open>Lines 165-217: the executor of the returned promise runs at once, so on return the
  capability exists, all listeners are registered, the offer is fed and the
  \<open>connection\<close> event is emitted. The returned promise is \<open>a_result\<close> of the new closure.\<close>

definition acceptConnection :: "message \<Rightarrow> broker \<Rightarrow> ref \<times> broker" where
  "acceptConnection m b =
     (let k = length (acceptances b);
          peer = SimplePeer \<lparr>initiator = False, trickle = TRICKLE, iceServers = None\<rparr>;
          c = \<lparr>a_message = m, a_peer = signal (msg_offer m) peer, a_result = new_promise,
               a_connecting = True, a_ready = new_promise, a_done = False,
               a_connect_once = True, a_ready_error_once = True, a_reject_once = True\<rparr>
      in (Accepted k,
          b\<lparr>acceptances := acceptances b @ [c],
            emitted := emitted b @
              [EmitConnection \<lparr>conn_id = msg_from m, conn_peer = Accepted k, conn_ready = Accepted k\<rparr>]\<rparr>))"

text \<open>
  \<open>this.functions\<close> is an object literal with the one own property \<open>connect\<close>; a property
  read \<open>this.functions[key]\<close> that finds no own property goes on to \<open>Object.prototype\<close>.
  There it finds the built-in methods and the accessor \<open>__proto__\<close>, whose value is
  \<open>Object.prototype\<close> itself: an object, not a function.
\<close>

datatype property = OwnConnect | ProtoFunction string | ProtoObject

definition object_prototype_functions :: "string list" where
  "object_prototype_functions =
     [''constructor'', ''hasOwnProperty'', ''isPrototypeOf'', ''propertyIsEnumerable'',
      ''toLocaleString'', ''toString'', ''valueOf'', ''__defineGetter__'',
      ''__defineSetter__'', ''__lookupGetter__'', ''__lookupSetter__'']"

definition functions_get :: "string \<Rightarrow> property option" where
  "functions_get key =
     (if key = ''connect'' then Some OwnConnect
      else if key \<in> set object_prototype_functions then Some (ProtoFunction key)
      else if key = ''__proto__'' then Some ProtoObject
      else None)"

text \<open>What the request handler hands back to the channel: an exception, the promise of
  \<open>_acceptConnection\<close>, or whatever the inherited built-in returns or throws when it is
  called as a plain function on the message.\<close>

datatype request_result = Threw err | Returned ref | CalledInherited string

text \<open>\<open>this.connection.on('request', ...)\<close>, lines 43-49.\<close>

definition on_request :: "message \<Rightarrow> broker \<Rightarrow> request_result \<times> broker" where
  "on_request m b =
     (case functions_get (msg_type m) of
        None \<Rightarrow> (Threw (Error (''Unknown message type \"'' @ msg_type m @ ''\"'')), b)
      | Some OwnConnect \<Rightarrow> (let (p, b') = acceptConnection m b in (Returned p, b'))
      | Some (ProtoFunction name) \<Rightarrow> (CalledInherited name, b)
      | Some ProtoObject \<Rightarrow> (Threw (TypeError ''fn is not a function''), b))"

subsection \<open>Events and runs\<close>

text \<open>
  Everything that makes a callback of the broker run. \<open>Inbound\<close> and \<open>Response\<close> are
  what the channel makes of a message of the socket: a fresh request, or the response to a
  request of this side. \<open>PeerOut k\<close> and \<open>PeerIn k\<close> are events of the capability of the
  k-th initiation and of the k-th acceptance; a capability that was never created emits
  nothing. The two calls are those of the application.
\<close>

datatype event =
    SocketOpen
  | SocketClose
  | SocketError err
  | Inbound message
  | Response nat "err + signal_data"
  | PeerOut nat peer_event
  | PeerIn nat peer_event
  | CallInitiate peer_id peer_id
  | CallClose

fun step :: "broker \<Rightarrow> event \<Rightarrow> broker" where
  "step b SocketOpen = socket_onopen b"
| "step b SocketClose = socket_onclose b"
| "step b (SocketError e) = socket_onerror e b"
| "step b (Inbound m) = snd (on_request m b)"
| "step b (Response cid r) = receive_response cid r b"
| "step b (PeerOut k ev) = (if k < length (initiations b) then init_emit k ev b else b)"
| "step b (PeerIn k ev) = b\<lparr>acceptances := modify k (accept_emit k ev) (acceptances b)\<rparr>"
| "step b (CallInitiate from_id to_id) = snd (initiateConnection from_id to_id b)"
| "step b CallClose = close b"

fun run :: "broker \<Rightarrow> event list \<Rightarrow> broker" where
  "run b [] = b"
| "run b (ev # evs) = run (step b ev) evs"

section \<open>The rules of the specification\<close>

text \<open>The spec's rule for the broker's readiness: the first open or error of the relay.\<close>

fun first_relay_outcome :: "event list \<Rightarrow> unit settlement" where
  "first_relay_outcome [] = Pending"
| "first_relay_outcome (SocketOpen # evs) = Fulfilled ()"
| "first_relay_outcome (SocketError e # evs) = Rejected e"
| "first_relay_outcome (ev # evs) = first_relay_outcome evs"

text \<open>The spec's rule for the result of \<open>_acceptConnection\<close>: the first answer or error
  of the capability of the k-th acceptance.\<close>

fun first_answer_or_error :: "nat \<Rightarrow> event list \<Rightarrow> signal_data settlement" where
  "first_answer_or_error k [] = Pending"
| "first_answer_or_error k (PeerIn j (PSignal d) # evs) =
     (if j = k \<and> sd_type d = ''answer'' then Fulfilled d else first_answer_or_error k evs)"
| "first_answer_or_error k (PeerIn j (PError e) # evs) =
     (if j = k then Rejected e else first_answer_or_error k evs)"
| "first_answer_or_error k (ev # evs) = first_answer_or_error k evs"

text \<open>
  The spec's rule for the readiness of an initiated Connection names three events:
  the capability reports connected, the capability reports an error, the connect
  request fails. A failure response counts when its correlation id is that of a request
  of the k-th initiation that still awaits its response. The first of them decides.
\<close>

fun settles_initiation :: "nat \<Rightarrow> broker \<Rightarrow> event \<Rightarrow> unit settlement option" where
  "settles_initiation k b (PeerOut j PConnect) = (if j = k then Some (Fulfilled ()) else None)"
| "settles_initiation k b (PeerOut j (PError e)) = (if j = k then Some (Rejected e) else None)"
| "settles_initiation k b (Response cid (Inl e)) =
     (if map_of (pending b) cid = Some k then Some (Rejected e) else None)"
| "settles_initiation k b ev = None"

fun first_settling :: "nat \<Rightarrow> broker \<Rightarrow> event list \<Rightarrow> unit settlement" where
  "first_settling k b [] = Pending"
| "first_settling k b (ev # evs) =
     (case settles_initiation k b ev of
        Some s \<Rightarrow> s
      | None \<Rightarrow> first_settling k (step b ev) evs)"

text \<open>No event of the list is an open or an error of the relay socket.\<close>

fun relay_silent :: "event list \<Rightarrow> bool" where
  "relay_silent [] = True"
| "relay_silent (SocketOpen # evs) = False"
| "relay_silent (SocketError e # evs) = False"
| "relay_silent (ev # evs) = relay_silent evs"

text \<open>No event of the list is a response to the request with correlation id \<open>cid\<close>.\<close>

fun unanswered :: "nat \<Rightarrow> event list \<Rightarrow> bool" where
  "unanswered cid [] = True"
| "unanswered cid (Response c r # evs) = (c \<noteq> cid \<and> unanswered cid evs)"
| "unanswered cid (ev # evs) = unanswered cid evs"

section \<open>The effect of one event on one closure\<close>

text \<open>The callbacks of the k-th initiation that an event runs, as a function on its closure.
  \<open>peer.on('signal')\<close> is absent: it writes to the channel and leaves the closure alone.\<close>

fun initiation_effect :: "nat \<Rightarrow> broker \<Rightarrow> event \<Rightarrow> initiation \<Rightarrow> initiation" where
  "initiation_effect k b (PeerOut j (PError e)) c = (if j = k then init_on_error e c else c)"
| "initiation_effect k b (PeerOut j PConnect) c = (if j = k then init_on_connect c else c)"
| "initiation_effect k b (Response cid (Inl e)) c =
     (if map_of (pending b) cid = Some k then request_catch e c else c)"
| "initiation_effect k b (Response cid (Inr answer)) c =
     (if map_of (pending b) cid = Some k then request_then answer c else c)"
| "initiation_effect k b ev c = c"

text \<open>The same for the k-th acceptance.\<close>

fun acceptance_effect :: "nat \<Rightarrow> event \<Rightarrow> acceptance \<Rightarrow> acceptance" where
  "acceptance_effect k (PeerIn j pe) c = (if j = k then accept_emit k pe c else c)"
| "acceptance_effect k ev c = c"

section \<open>Properties\<close>

subsection \<open>Promises, closures and single steps\<close>

lemma state_resolve: "state (resolve v p) = (if state p = Pending then Fulfilled v else state p)"
  by (cases "state p") (simp_all add: resolve_def)

lemma state_reject: "state (reject e p) = (if state p = Pending then Rejected e else state p)"
  by (cases "state p") (simp_all add: reject_def)

lemma settle_calls_resolve: "settle_calls (resolve v p) = Suc (settle_calls p)"
  by (simp add: resolve_def)

lemma settle_calls_reject: "settle_calls (reject e p) = Suc (settle_calls p)"
  by (simp add: reject_def)

lemma length_modify: "length (modify k f xs) = length xs"
  by (simp add: modify_def)

lemma nth_modify: "j < length xs \<Longrightarrow> modify k f xs ! j = (if j = k then f (xs ! j) else xs ! j)"
  by (simp add: modify_def)

lemma run_append: "run b (xs @ ys) = run (run b xs) ys"
  by (induction xs arbitrary: b) simp_all

lemma init_emit_frame:
  "ready (init_emit k pe b) = ready b"
  "connecting (init_emit k pe b) = connecting b"
  "emitted (init_emit k pe b) = emitted b"
  "acceptances (init_emit k pe b) = acceptances b"
  "url (init_emit k pe b) = url b"
  "ws_closed (socket (init_emit k pe b)) = ws_closed (socket b)"
  by (cases pe; simp add: init_on_signal_def request_def Let_def)+

lemma receive_response_frame:
  "ready (receive_response cid r b) = ready b"
  "connecting (receive_response cid r b) = connecting b"
  "emitted (receive_response cid r b) = emitted b"
  "acceptances (receive_response cid r b) = acceptances b"
  "socket (receive_response cid r b) = socket b"
  "next_id (receive_response cid r b) = next_id b"
  by (simp_all add: receive_response_def split: option.splits)

lemma on_request_frame:
  "ready (snd (on_request m b)) = ready b"
  "connecting (snd (on_request m b)) = connecting b"
  "initiations (snd (on_request m b)) = initiations b"
  "socket (snd (on_request m b)) = socket b"
  "pending (snd (on_request m b)) = pending b"
  "next_id (snd (on_request m b)) = next_id b"
  by (simp_all add: on_request_def acceptConnection_def Let_def
      split: option.splits property.splits)

lemma initiateConnection_frame:
  "ready (snd (initiateConnection f t b)) = ready b"
  "connecting (snd (initiateConnection f t b)) = connecting b"
  "emitted (snd (initiateConnection f t b)) = emitted b"
  "acceptances (snd (initiateConnection f t b)) = acceptances b"
  "socket (snd (initiateConnection f t b)) = socket b"
  "pending (snd (initiateConnection f t b)) = pending b"
  "next_id (snd (initiateConnection f t b)) = next_id b"
  by (simp_all add: initiateConnection_def Let_def)

lemmas frames = init_emit_frame receive_response_frame on_request_frame initiateConnection_frame

text \<open>What one event does to the readiness of the broker.\<close>

lemma ready_step:
  "ready (step b ev) =
     (case ev of
        SocketOpen \<Rightarrow> if connecting b then resolve () (ready b) else ready b
      | SocketError e \<Rightarrow> if connecting b then reject e (ready b) else ready b
      | _ \<Rightarrow> ready b)"
  by (cases ev)
    (simp_all add: frames socket_onopen_def socket_onclose_def socket_onerror_def close_def Let_def)

lemma connecting_step:
  "connecting (step b ev) =
     (case ev of SocketOpen \<Rightarrow> False | SocketError e \<Rightarrow> False | _ \<Rightarrow> connecting b)"
  by (cases ev)
    (simp_all add: frames socket_onopen_def socket_onclose_def socket_onerror_def close_def Let_def)


lemma ready_settled_run:
  "\<not> connecting b \<Longrightarrow> ready (run b evs) = ready b \<and> \<not> connecting (run b evs)"
  by (induction evs arbitrary: b) (simp_all add: ready_step connecting_step split: event.splits)

lemma ready_connecting_run:
  "connecting b \<Longrightarrow> ready b = new_promise \<Longrightarrow>
     state (ready (run b evs)) = first_relay_outcome evs \<and>
     settle_calls (ready (run b evs)) = (if first_relay_outcome evs = Pending then 0 else 1) \<and>
     connecting (run b evs) = (first_relay_outcome evs = Pending)"
proof (induction evs arbitrary: b)
  case Nil
  then show ?case by (simp add: new_promise_def)
next
  case (Cons ev evs)
  show ?case
  proof (cases "ev = SocketOpen \<or> (\<exists>e. ev = SocketError e)")
    case True
    then have settled: "\<not> connecting (step b ev)"
      by (auto simp: connecting_step)
    from True Cons.prems have
      "state (ready (step b ev)) = first_relay_outcome (ev # evs)"
      "settle_calls (ready (step b ev)) = 1"
      "first_relay_outcome (ev # evs) \<noteq> Pending"
      by (auto simp: ready_step state_resolve state_reject settle_calls_resolve
          settle_calls_reject new_promise_def)
    with ready_settled_run [OF settled, of evs] show ?thesis by simp
  next
    case False
    have "ready (step b ev) = ready b"
      using False by (cases ev) (simp_all add: ready_step del: step.simps)
    moreover have "connecting (step b ev) = connecting b"
      using False by (cases ev) (simp_all add: connecting_step del: step.simps)
    moreover have "first_relay_outcome (ev # evs) = first_relay_outcome evs"
      using False by (cases ev) simp_all
    ultimately show ?thesis
      using Cons.IH [of "step b ev"] Cons.prems by simp
  qed
qed


lemma late_open:
  "\<not> connecting b \<Longrightarrow> step b SocketOpen = b\<lparr>emitted := emitted b @ [EmitOpen]\<rparr>"
  by (simp add: socket_onopen_def)

lemma late_error:
  "\<not> connecting b \<Longrightarrow> step b (SocketError e) = b\<lparr>emitted := emitted b @ [EmitError e]\<rparr>"
  by (simp add: socket_onerror_def)

text \<open>
  Claim C2. The readiness of the broker is settled by the first open or error event of
  the relay socket and by nothing else: after any events, \<open>this.ready\<close> is fulfilled when
  the first of them was an open, rejected with the error when it was an error, and
  pending when there was neither; resolve and reject were called at most once between
  them. Once it is settled, an open event only emits \<open>open\<close> and an error event only
  emits \<open>error\<close> with the error: no other part of the broker changes.
\<close>

theorem broker_ready_first_open_or_error:
  "state (ready (run (Broker u) evs)) = first_relay_outcome evs \<and>
   settle_calls (ready (run (Broker u) evs)) \<le> 1 \<and>
   (state (ready (run (Broker u) evs)) \<noteq> Pending \<longrightarrow>
      step (run (Broker u) evs) SocketOpen =
        (run (Broker u) evs)\<lparr>emitted := emitted (run (Broker u) evs) @ [EmitOpen]\<rparr> \<and>
      step (run (Broker u) evs) (SocketError e) =
        (run (Broker u) evs)\<lparr>emitted := emitted (run (Broker u) evs) @ [EmitError e]\<rparr>)"
proof -
  have init: "connecting (Broker u)" "ready (Broker u) = new_promise"
    by (simp_all add: Broker_def)
  note r = ready_connecting_run [OF init, of evs]
  from r have "state (ready (run (Broker u) evs)) \<noteq> Pending \<Longrightarrow> \<not> connecting (run (Broker u) evs)"
    by simp
  with r show ?thesis
    by (auto simp: late_open late_error simp del: step.simps)
qed

theorem broker_ready_witness:
  "state (ready (run (Broker ''ws://relay'') [SocketClose, SocketError (Error ''refused''), SocketOpen]))
     = Rejected (Error ''refused'') \<and>
   state (ready (run (Broker ''ws://relay'') [SocketClose, SocketError (Error ''refused''), SocketOpen]))
     \<noteq> Pending \<and>
   emitted (step (run (Broker ''ws://relay'') [SocketClose, SocketError (Error ''refused''), SocketOpen])
       (SocketError (Error ''again'')))
     = [EmitClose, EmitOpen, EmitError (Error ''again'')]"
  using broker_ready_first_open_or_error
    [of "''ws://relay''" "[SocketClose, SocketError (Error ''refused''), SocketOpen]" "Error ''again''"]
  by (simp add: Broker_def ReconnectingWebSocket_def new_promise_def socket_onclose_def
      socket_onerror_def socket_onopen_def reject_def)

subsection \<open>Closures under a step\<close>

lemma length_initiations_init_emit:
  "length (initiations (init_emit j pe b)) = length (initiations b)"
  by (cases pe) (simp_all add: length_modify init_on_signal_def request_def Let_def)

lemma initiations_step:
  assumes "k < length (initiations b)"
  shows "k < length (initiations (step b ev))"
    and "initiations (step b ev) ! k = initiation_effect k b ev (initiations b ! k)"
proof -
  show "k < length (initiations (step b ev))"
    using assms
    by (cases ev)
      (auto simp: socket_onopen_def socket_onclose_def socket_onerror_def close_def Let_def
        on_request_frame receive_response_def length_modify initiateConnection_def
        length_initiations_init_emit
        split: option.splits)
  show "initiations (step b ev) ! k = initiation_effect k b ev (initiations b ! k)"
  proof (cases ev)
    case (Response cid r)
    then show ?thesis
      using assms by (cases r) (auto simp: receive_response_def nth_modify split: option.splits)
  next
    case (PeerOut j pe)
    then show ?thesis
      using assms by (cases pe) (auto simp: nth_modify init_on_signal_def request_def Let_def)
  next
    case (CallInitiate f t)
    then show ?thesis
      using assms by (simp add: initiateConnection_def Let_def nth_append)
  qed (simp_all add: socket_onopen_def socket_onclose_def socket_onerror_def close_def Let_def
      on_request_frame)
qed

lemma acceptances_step:
  assumes "k < length (acceptances b)"
  shows "k < length (acceptances (step b ev))"
    and "acceptances (step b ev) ! k = acceptance_effect k ev (acceptances b ! k)"
proof -
  show "k < length (acceptances (step b ev))"
    using assms
    by (cases ev)
      (auto simp: socket_onopen_def socket_onclose_def socket_onerror_def close_def Let_def
        on_request_def acceptConnection_def frames length_modify
        split: option.splits property.splits)
  show "acceptances (step b ev) ! k = acceptance_effect k ev (acceptances b ! k)"
  proof (cases ev)
    case (Inbound m)
    then show ?thesis
      using assms
      by (auto simp: on_request_def acceptConnection_def Let_def nth_append
          split: option.splits property.splits)
  next
    case (PeerIn j pe)
    then show ?thesis
      using assms by (auto simp: nth_modify)
  qed (simp_all add: socket_onopen_def socket_onclose_def socket_onerror_def close_def Let_def
      frames)
qed

subsection \<open>The relay socket closes\<close>

lemma relay_silent_run:
  "relay_silent evs \<Longrightarrow> ready (run b evs) = ready b \<and> connecting (run b evs) = connecting b"
proof (induction evs arbitrary: b)
  case Nil
  then show ?case by simp
next
  case (Cons ev evs)
  from Cons.prems have quiet: "relay_silent evs" "ev \<noteq> SocketOpen" "\<forall>e. ev \<noteq> SocketError e"
    by (cases ev; simp)+
  have "ready (step b ev) = ready b" "connecting (step b ev) = connecting b"
    using quiet by (cases ev; simp add: ready_step connecting_step del: step.simps)+
  with Cons.IH [OF quiet(1), of "step b ev"] show ?case by simp
qed

text \<open>
  Claim C10, as amended. A close of the relay socket does not settle the readiness of
  the broker. As long as the socket has reported neither open nor error, the readiness
  is pending and the broker is still connecting, whatever else has happened, a close
  of the socket and a call of \<open>close()\<close> included. In any state the close handler
  appends \<open>close\<close> to the emitted events and leaves the readiness and the connecting
  flag as they are, and so does \<open>close()\<close>.
\<close>

theorem close_leaves_ready_pending:
  assumes "relay_silent evs"
  shows "ready (run (Broker u) (evs @ [SocketClose])) = new_promise \<and>
         connecting (run (Broker u) (evs @ [SocketClose])) \<and>
         ready (run (Broker u) (evs @ [CallClose, SocketClose])) = new_promise \<and>
         connecting (run (Broker u) (evs @ [CallClose, SocketClose])) \<and>
         ready (step b SocketClose) = ready b \<and>
         connecting (step b SocketClose) = connecting b \<and>
         emitted (step b SocketClose) = emitted b @ [EmitClose] \<and>
         ready (step b CallClose) = ready b \<and>
         connecting (step b CallClose) = connecting b"
proof -
  have "ready (run (Broker u) evs) = new_promise" "connecting (run (Broker u) evs)"
    using relay_silent_run [OF assms, of "Broker u"] by (simp_all add: Broker_def)
  then show ?thesis
    by (simp add: run_append socket_onclose_def close_def)
qed

theorem close_leaves_ready_pending_witness:
  "relay_silent [CallInitiate ''peer1'' ''peer2'', SocketClose] \<and>
   state (ready (run (Broker ''ws://relay'')
     ([CallInitiate ''peer1'' ''peer2'', SocketClose] @ [CallClose, SocketClose]))) = Pending \<and>
   emitted (step (Broker ''ws://relay'') SocketClose) = [EmitClose]"
  using close_leaves_ready_pending
    [of "[CallInitiate ''peer1'' ''peer2'', SocketClose]" "''ws://relay''" "Broker ''ws://relay''"]
  by (simp add: new_promise_def Broker_def)

text \<open>
  Claim C10 as stated, that after a close in the connecting state the readiness never
  settles, fails: the close leaves the flag \<open>connecting\<close> set, so the next open of the
  reconnecting socket resolves the readiness, and the next error rejects it.
\<close>

theorem open_after_close_settles_ready:
  "relay_silent [] \<and>
   connecting (run (Broker ''ws://relay'') [SocketClose]) \<and>
   state (ready (run (Broker ''ws://relay'') [SocketClose])) = Pending \<and>
   state (ready (run (Broker ''ws://relay'') [SocketClose, SocketOpen])) = Fulfilled () \<and>
   state (ready (run (Broker ''ws://relay'') [SocketClose, SocketError (Error ''refused'')])) =
     Rejected (Error ''refused'')"
  by (simp add: Broker_def new_promise_def socket_onclose_def socket_onopen_def
      socket_onerror_def resolve_def reject_def)

subsection \<open>\<open>close()\<close>\<close>

text \<open>
  Claim C9. \<open>close()\<close> marks the relay socket as closed and does nothing else: the url
  and the sent messages of the socket, the channel, the emitted events, the readiness
  and the connecting flag of the broker, and the closures of all initiated and accepted
  connections, with their capabilities and readiness promises, are as before.
\<close>

theorem close_only_closes_socket:
  "ws_closed (socket (close b)) \<and>
   ws_url (socket (close b)) = ws_url (socket b) \<and>
   ws_sent (socket (close b)) = ws_sent (socket b) \<and>
   url (close b) = url b \<and>
   next_id (close b) = next_id b \<and>
   pending (close b) = pending b \<and>
   emitted (close b) = emitted b \<and>
   ready (close b) = ready b \<and>
   connecting (close b) = connecting b \<and>
   initiations (close b) = initiations b \<and>
   acceptances (close b) = acceptances b \<and>
   close b = b\<lparr>socket := socket (close b)\<rparr>"
  by (simp add: close_def)

subsection \<open>\<open>initiateConnection\<close> returns at once\<close>

text \<open>
  Claim C8. \<open>initiateConnection(from, to)\<close> returns a Connection for \<open>to\<close> whose capability
  and readiness are those of a new closure, stored behind all existing ones, which are
  unchanged. The capability is configured as initiator, without trickle and with the five
  public STUN servers, and nothing has been fed to it; the readiness is pending. The
  call sends nothing, opens no transaction and emits nothing.
\<close>

theorem initiateConnection_returns_fresh_connection:
  "fst (initiateConnection from_id to_id b) =
     \<lparr>conn_id = to_id, conn_peer = Initiated (length (initiations b)),
      conn_ready = Initiated (length (initiations b))\<rparr> \<and>
   length (initiations (snd (initiateConnection from_id to_id b))) = Suc (length (initiations b)) \<and>
   take (length (initiations b)) (initiations (snd (initiateConnection from_id to_id b))) =
     initiations b \<and>
   config (i_peer (initiations (snd (initiateConnection from_id to_id b)) ! length (initiations b))) =
     \<lparr>initiator = True, trickle = False,
      iceServers = Some [[''stun:stun.l.google.com:19302'', ''stun:stun1.l.google.com:19302'',
        ''stun:stun2.l.google.com:19302'', ''stun:stun3.l.google.com:19302'',
        ''stun:stun4.l.google.com:19302'']]\<rparr> \<and>
   signalled (i_peer (initiations (snd (initiateConnection from_id to_id b)) ! length (initiations b))) = [] \<and>
   i_ready (initiations (snd (initiateConnection from_id to_id b)) ! length (initiations b)) =
     \<lparr>state = Pending, settle_calls = 0\<rparr> \<and>
   i_connecting (initiations (snd (initiateConnection from_id to_id b)) ! length (initiations b)) \<and>
   socket (snd (initiateConnection from_id to_id b)) = socket b \<and>
   pending (snd (initiateConnection from_id to_id b)) = pending b \<and>
   next_id (snd (initiateConnection from_id to_id b)) = next_id b \<and>
   emitted (snd (initiateConnection from_id to_id b)) = emitted b \<and>
   acceptances (snd (initiateConnection from_id to_id b)) = acceptances b"
  by (simp add: initiateConnection_def Let_def SimplePeer_def TRICKLE_def stun_servers_def
      new_promise_def)

subsection \<open>The request handler\<close>

lemma emitted_step: "\<exists>ys. emitted (step b ev) = emitted b @ ys"
  by (cases ev)
    (simp_all add: socket_onopen_def socket_onclose_def socket_onerror_def close_def Let_def
      frames on_request_def acceptConnection_def split: option.splits property.splits)

lemma emitted_run: "\<exists>ys. emitted (run b evs) = emitted b @ ys"
proof (induction evs arbitrary: b)
  case Nil
  then show ?case by simp
next
  case (Cons ev evs)
  obtain ys where "emitted (step b ev) = emitted b @ ys"
    using emitted_step by blast
  moreover obtain zs where "emitted (run (step b ev) evs) = emitted (step b ev) @ zs"
    using Cons.IH by blast
  ultimately show ?case by simp
qed

lemma unknown_type_throws:
  "functions_get (msg_type m) = None \<Longrightarrow>
     on_request m b = (Threw (Error (''Unknown message type \"'' @ msg_type m @ ''\"'')), b)"
  by (simp add: on_request_def)

text \<open>
  Claim C7. An inbound request of type \<open>connect\<close> makes the handler return the promise of
  a new acceptance and, in the same step, emit \<open>connection\<close> with a Connection whose id
  is the \<open>from\<close> of the message and whose capability and readiness are those of that
  acceptance. The promise is still pending then, and whatever events follow, the emitted
  event stays where it is in the list of emitted events.
\<close>

theorem accept_emits_connection:
  assumes "msg_type m = ''connect''"
  shows "fst (on_request m b) = Returned (Accepted (length (acceptances b))) \<and>
         emitted (step b (Inbound m)) =
           emitted b @ [EmitConnection \<lparr>conn_id = msg_from m,
             conn_peer = Accepted (length (acceptances b)),
             conn_ready = Accepted (length (acceptances b))\<rparr>] \<and>
         state (a_result (acceptances (step b (Inbound m)) ! length (acceptances b))) = Pending \<and>
         (\<exists>later. emitted (run (step b (Inbound m)) evs) =
           emitted b @ [EmitConnection \<lparr>conn_id = msg_from m,
             conn_peer = Accepted (length (acceptances b)),
             conn_ready = Accepted (length (acceptances b))\<rparr>] @ later)"
proof -
  have now: "emitted (step b (Inbound m)) =
      emitted b @ [EmitConnection \<lparr>conn_id = msg_from m,
        conn_peer = Accepted (length (acceptances b)),
        conn_ready = Accepted (length (acceptances b))\<rparr>]"
    using assms by (simp add: on_request_def functions_get_def acceptConnection_def Let_def)
  obtain later where "emitted (run (step b (Inbound m)) evs) = emitted (step b (Inbound m)) @ later"
    using emitted_run by blast
  with now have "\<exists>later. emitted (run (step b (Inbound m)) evs) =
      emitted b @ [EmitConnection \<lparr>conn_id = msg_from m,
        conn_peer = Accepted (length (acceptances b)),
        conn_ready = Accepted (length (acceptances b))\<rparr>] @ later"
    by simp
  moreover have "fst (on_request m b) = Returned (Accepted (length (acceptances b)))"
    using assms by (simp add: on_request_def functions_get_def acceptConnection_def Let_def)
  moreover have "state (a_result (acceptances (step b (Inbound m)) ! length (acceptances b))) = Pending"
    using assms
    by (simp add: on_request_def functions_get_def acceptConnection_def Let_def new_promise_def)
  ultimately show ?thesis using now by blast
qed

theorem accept_emits_connection_witness:
  "msg_type \<lparr>msg_type = ''connect'', msg_from = ''peer1'', msg_to = ''peer2'',
      msg_offer = \<lparr>sd_type = ''offer'', sd_body = ''O1''\<rparr>\<rparr> = ''connect'' \<and>
   emitted (step (Broker ''ws://relay'')
     (Inbound \<lparr>msg_type = ''connect'', msg_from = ''peer1'', msg_to = ''peer2'',
        msg_offer = \<lparr>sd_type = ''offer'', sd_body = ''O1''\<rparr>\<rparr>)) =
     [EmitConnection \<lparr>conn_id = ''peer1'', conn_peer = Accepted 0, conn_ready = Accepted 0\<rparr>]"
  using accept_emits_connection
    [of "\<lparr>msg_type = ''connect'', msg_from = ''peer1'', msg_to = ''peer2'',
          msg_offer = \<lparr>sd_type = ''offer'', sd_body = ''O1''\<rparr>\<rparr>" "Broker ''ws://relay''" "[]"]
  by (simp add: Broker_def)

text \<open>
  Claim C5 fails on the code. The handler looks the type up with \<open>this.functions[type]\<close>,
  which also finds what the object inherits from \<open>Object.prototype\<close>. A request of type
  \<open>toString\<close> is therefore not refused with "Unknown message type": the inherited
  built-in is called on the message and its result is the handler's result.
\<close>

theorem inherited_type_is_dispatched:
  "on_request \<lparr>msg_type = ''toString'', msg_from = ''peer1'', msg_to = ''peer2'',
       msg_offer = \<lparr>sd_type = ''offer'', sd_body = ''O1''\<rparr>\<rparr> (Broker ''ws://relay'') =
     (CalledInherited ''toString'', Broker ''ws://relay'') \<and>
   functions_get ''toString'' \<noteq> Some OwnConnect \<and>
   fst (on_request \<lparr>msg_type = ''toString'', msg_from = ''peer1'', msg_to = ''peer2'',
       msg_offer = \<lparr>sd_type = ''offer'', sd_body = ''O1''\<rparr>\<rparr> (Broker ''ws://relay'')) \<noteq>
     Threw (Error ''Unknown message type \"toString\"'')"
  by (simp add: on_request_def functions_get_def object_prototype_functions_def)

subsection \<open>The result of \<open>_acceptConnection\<close>\<close>

lemma first_answer_or_error_Cons:
  "first_answer_or_error k (ev # evs) =
     (if first_answer_or_error k [ev] = Pending then first_answer_or_error k evs
      else first_answer_or_error k [ev])"
proof (cases ev)
  case (PeerIn j pe)
  then show ?thesis by (cases pe) simp_all
qed simp_all

lemma result_settled_effect:
  "state (a_result c) \<noteq> Pending \<Longrightarrow>
     state (a_result (acceptance_effect k ev c)) = state (a_result c)"
proof (cases ev)
  case (PeerIn j pe)
  assume "state (a_result c) \<noteq> Pending"
  with PeerIn show ?thesis
    by (cases pe)
      (simp_all add: ready_on_connect_def ready_on_error_def accept_on_signal_def
        once_error_reject_def accept_on_error_def state_resolve state_reject Let_def)
qed simp_all

lemma result_pending_effect:
  assumes "a_connecting c" "state (a_result c) = Pending"
  shows "state (a_result (acceptance_effect k ev c)) = first_answer_or_error k [ev]"
    and "first_answer_or_error k [ev] = Pending \<Longrightarrow> a_connecting (acceptance_effect k ev c)"
proof -
  show "state (a_result (acceptance_effect k ev c)) = first_answer_or_error k [ev]"
  proof (cases ev)
    case (PeerIn j pe)
    with assms show ?thesis
      by (cases pe)
        (simp_all add: ready_on_connect_def ready_on_error_def accept_on_signal_def
          once_error_reject_def accept_on_error_def state_resolve state_reject Let_def)
  qed (simp_all add: assms)
  show "first_answer_or_error k [ev] = Pending \<Longrightarrow> a_connecting (acceptance_effect k ev c)"
  proof (cases ev)
    case (PeerIn j pe)
    assume "first_answer_or_error k [ev] = Pending"
    with PeerIn assms show ?thesis
      by (cases pe)
        (auto simp: ready_on_connect_def accept_on_signal_def split: if_splits)
  qed (simp_all add: assms)
qed

lemma result_settled_run:
  "k < length (acceptances b) \<Longrightarrow> state (a_result (acceptances b ! k)) \<noteq> Pending \<Longrightarrow>
     state (a_result (acceptances (run b evs) ! k)) = state (a_result (acceptances b ! k))"
proof (induction evs arbitrary: b)
  case Nil
  then show ?case by simp
next
  case (Cons ev evs)
  have "k < length (acceptances (step b ev))"
    "state (a_result (acceptances (step b ev) ! k)) = state (a_result (acceptances b ! k))"
    using Cons.prems by (simp_all add: acceptances_step result_settled_effect del: step.simps)
  with Cons.IH [of "step b ev"] Cons.prems show ?case by simp
qed

lemma result_pending_run:
  "k < length (acceptances b) \<Longrightarrow> a_connecting (acceptances b ! k) \<Longrightarrow>
   state (a_result (acceptances b ! k)) = Pending \<Longrightarrow>
     state (a_result (acceptances (run b evs) ! k)) = first_answer_or_error k evs"
proof (induction evs arbitrary: b)
  case Nil
  then show ?case by simp
next
  case (Cons ev evs)
  have len: "k < length (acceptances (step b ev))"
    and eff: "acceptances (step b ev) ! k = acceptance_effect k ev (acceptances b ! k)"
    using Cons.prems(1) by (rule acceptances_step)+
  have now: "state (a_result (acceptances (step b ev) ! k)) = first_answer_or_error k [ev]"
    unfolding eff using Cons.prems(2,3) by (rule result_pending_effect)
  show ?case
  proof (cases "first_answer_or_error k [ev] = Pending")
    case True
    then have "a_connecting (acceptances (step b ev) ! k)"
      unfolding eff using result_pending_effect(2) [OF Cons.prems(2,3)] by simp
    with Cons.IH [OF len] now True
    have "state (a_result (acceptances (run (step b ev) evs) ! k)) = first_answer_or_error k evs"
      by simp
    with True show ?thesis
      by (simp add: first_answer_or_error_Cons [of k ev evs] del: step.simps)
  next
    case False
    with now result_settled_run [OF len, of evs]
    have "state (a_result (acceptances (run (step b ev) evs) ! k)) = first_answer_or_error k [ev]"
      by simp
    with False show ?thesis
      by (simp add: first_answer_or_error_Cons [of k ev evs] del: step.simps)
  qed
qed

text \<open>
  Claim C6. \<open>_acceptConnection(message)\<close> creates a capability configured as responder
  (not initiator, no trickle, no server list), feeds it the offer of the message and
  nothing else, and returns a promise. After any events, that promise is fulfilled with
  the first signal of the capability whose type is \<open>answer\<close> if no error of the
  capability came before it, rejected with the first error of the capability if no
  answer came before it, and pending when the capability has produced neither.
\<close>

theorem acceptConnection_answers_or_fails:
  "fst (acceptConnection m b) = Accepted (length (acceptances b)) \<and>
   config (a_peer (acceptances (snd (acceptConnection m b)) ! length (acceptances b))) =
     \<lparr>initiator = False, trickle = False, iceServers = None\<rparr> \<and>
   signalled (a_peer (acceptances (snd (acceptConnection m b)) ! length (acceptances b))) =
     [msg_offer m] \<and>
   state (a_result (acceptances (run (snd (acceptConnection m b)) evs) ! length (acceptances b))) =
     first_answer_or_error (length (acceptances b)) evs"
proof -
  let ?k = "length (acceptances b)" and ?b = "snd (acceptConnection m b)"
  have new: "?k < length (acceptances ?b)" "a_connecting (acceptances ?b ! ?k)"
    "state (a_result (acceptances ?b ! ?k)) = Pending"
    by (simp_all add: acceptConnection_def Let_def new_promise_def)
  have "state (a_result (acceptances (run ?b evs) ! ?k)) = first_answer_or_error ?k evs"
    using new by (rule result_pending_run)
  then show ?thesis
    by (simp add: acceptConnection_def Let_def SimplePeer_def signal_def TRICKLE_def)
qed

theorem acceptConnection_answers_or_fails_witness:
  "state (a_result (acceptances (run (snd (acceptConnection
       \<lparr>msg_type = ''connect'', msg_from = ''peer1'', msg_to = ''peer2'',
        msg_offer = \<lparr>sd_type = ''offer'', sd_body = ''O1''\<rparr>\<rparr> (Broker ''ws://relay'')))
       [PeerIn 0 (PSignal \<lparr>sd_type = ''answer'', sd_body = ''A1''\<rparr>),
        PeerIn 0 (PError (Error ''ice failed''))]) ! 0)) =
     Fulfilled \<lparr>sd_type = ''answer'', sd_body = ''A1''\<rparr>"
  using acceptConnection_answers_or_fails
    [of "\<lparr>msg_type = ''connect'', msg_from = ''peer1'', msg_to = ''peer2'',
          msg_offer = \<lparr>sd_type = ''offer'', sd_body = ''O1''\<rparr>\<rparr>" "Broker ''ws://relay''"
        "[PeerIn 0 (PSignal \<lparr>sd_type = ''answer'', sd_body = ''A1''\<rparr>),
          PeerIn 0 (PError (Error ''ice failed''))]"]
  by (simp add: Broker_def)

subsection \<open>The readiness of a Connection\<close>

lemma initiation_decided_effect:
  "\<not> i_connecting c \<Longrightarrow>
     i_ready (initiation_effect k b ev c) = i_ready c \<and> \<not> i_connecting (initiation_effect k b ev c)"
proof (cases ev)
  case (Response cid r)
  assume "\<not> i_connecting c"
  with Response show ?thesis
    by (cases r) (simp_all add: request_catch_def request_then_def)
next
  case (PeerOut j pe)
  assume "\<not> i_connecting c"
  with PeerOut show ?thesis
    by (cases pe) (simp_all add: init_on_error_def init_on_connect_def Let_def)
qed simp_all

lemma initiation_decided_run:
  "k < length (initiations b) \<Longrightarrow> \<not> i_connecting (initiations b ! k) \<Longrightarrow>
     k < length (initiations (run b evs)) \<and>
     i_ready (initiations (run b evs) ! k) = i_ready (initiations b ! k) \<and>
     \<not> i_connecting (initiations (run b evs) ! k)"
proof (induction evs arbitrary: b)
  case Nil
  then show ?case by simp
next
  case (Cons ev evs)
  have len: "k < length (initiations (step b ev))"
    and eff: "initiations (step b ev) ! k = initiation_effect k b ev (initiations b ! k)"
    using Cons.prems(1) by (rule initiations_step)+
  have "i_ready (initiations (step b ev) ! k) = i_ready (initiations b ! k)"
    "\<not> i_connecting (initiations (step b ev) ! k)"
    unfolding eff using initiation_decided_effect [OF Cons.prems(2)] by simp_all
  with Cons.IH [OF len] show ?case by simp
qed

text \<open>While the flag \<open>connecting\<close> of an initiation is set its readiness is untouched;
  once it is cleared the readiness has been settled by exactly one call.\<close>

lemma initiation_guard_effect:
  assumes "if i_connecting c then i_ready c = new_promise
           else state (i_ready c) \<noteq> Pending \<and> settle_calls (i_ready c) = 1"
  shows "if i_connecting (initiation_effect k b ev c)
         then i_ready (initiation_effect k b ev c) = new_promise
         else state (i_ready (initiation_effect k b ev c)) \<noteq> Pending \<and>
              settle_calls (i_ready (initiation_effect k b ev c)) = 1"
proof (cases "i_connecting c")
  case False
  with assms initiation_decided_effect [OF False, of k b ev] show ?thesis by simp
next
  case True
  with assms have fresh: "i_ready c = new_promise" by simp
  show ?thesis
  proof (cases ev)
    case (Response cid r)
    with True fresh show ?thesis
      by (cases r)
        (simp_all add: request_catch_def request_then_def state_reject settle_calls_reject
          new_promise_def)
  next
    case (PeerOut j pe)
    with True fresh show ?thesis
      by (cases pe)
        (simp_all add: init_on_error_def init_on_connect_def Let_def state_reject
          state_resolve settle_calls_reject settle_calls_resolve new_promise_def)
  qed (simp_all add: True fresh)
qed

lemma initiation_guard_run:
  assumes "k < length (initiations b)"
    and "if i_connecting (initiations b ! k) then i_ready (initiations b ! k) = new_promise
         else state (i_ready (initiations b ! k)) \<noteq> Pending \<and>
              settle_calls (i_ready (initiations b ! k)) = 1"
  shows "k < length (initiations (run b evs)) \<and>
         (if i_connecting (initiations (run b evs) ! k)
          then i_ready (initiations (run b evs) ! k) = new_promise
          else state (i_ready (initiations (run b evs) ! k)) \<noteq> Pending \<and>
               settle_calls (i_ready (initiations (run b evs) ! k)) = 1)"
  using assms
proof (induction evs arbitrary: b)
  case Nil
  then show ?case by simp
next
  case (Cons ev evs)
  have len: "k < length (initiations (step b ev))"
    and eff: "initiations (step b ev) ! k = initiation_effect k b ev (initiations b ! k)"
    using Cons.prems(1) by (rule initiations_step)+
  have "if i_connecting (initiations (step b ev) ! k)
        then i_ready (initiations (step b ev) ! k) = new_promise
        else state (i_ready (initiations (step b ev) ! k)) \<noteq> Pending \<and>
             settle_calls (i_ready (initiations (step b ev) ! k)) = 1"
    unfolding eff using Cons.prems(2) by (rule initiation_guard_effect)
  with Cons.IH [OF len] show ?case by simp
qed

lemma accepted_ready_settled_effect:
  "state (a_ready c) \<noteq> Pending \<Longrightarrow>
     state (a_ready (acceptance_effect k ev c)) = state (a_ready c)"
proof (cases ev)
  case (PeerIn j pe)
  assume "state (a_ready c) \<noteq> Pending"
  with PeerIn show ?thesis
    by (cases pe)
      (simp_all add: ready_on_connect_def ready_on_error_def accept_on_signal_def
        once_error_reject_def accept_on_error_def state_resolve state_reject Let_def)
qed simp_all

lemma accepted_ready_settled_run:
  "k < length (acceptances b) \<Longrightarrow> state (a_ready (acceptances b ! k)) \<noteq> Pending \<Longrightarrow>
     state (a_ready (acceptances (run b evs) ! k)) = state (a_ready (acceptances b ! k))"
proof (induction evs arbitrary: b)
  case Nil
  then show ?case by simp
next
  case (Cons ev evs)
  have "k < length (acceptances (step b ev))"
    "state (a_ready (acceptances (step b ev) ! k)) = state (a_ready (acceptances b ! k))"
    using Cons.prems by (simp_all add: acceptances_step accepted_ready_settled_effect del: step.simps)
  with Cons.IH [of "step b ev"] Cons.prems show ?case by simp
qed

lemma acceptances_length_run:
  "k < length (acceptances b) \<Longrightarrow> k < length (acceptances (run b evs))"
  by (induction evs arbitrary: b) (simp_all add: acceptances_step del: step.simps)

text \<open>On the accepting side the flag \<open>done\<close> is not set when the error handler rejects, so
  a connect after an error calls \<open>resolveReady\<close> on the settled promise; the promise
  absorbs the call.\<close>

lemma accepted_ready_second_call:
  "a_ready (acceptances (run (snd (acceptConnection m (Broker u)))
       [PeerIn 0 (PError e), PeerIn 0 PConnect]) ! 0) =
     \<lparr>state = Rejected e, settle_calls = 2\<rparr>"
  by (simp add: acceptConnection_def Broker_def Let_def modify_def ready_on_connect_def
      ready_on_error_def once_error_reject_def accept_on_error_def new_promise_def
      resolve_def reject_def)

text \<open>
  Claim C3. The readiness of a Connection settles at most once. For a Connection
  returned by \<open>initiateConnection\<close>: resolve and reject are called at most once between
  them, and once the readiness is settled no later event changes it. For a Connection
  emitted by \<open>_acceptConnection\<close>: once the readiness is settled, no later event changes
  what it is settled with.
\<close>

theorem connection_ready_settles_once:
  "settle_calls (i_ready (initiations (run (snd (initiateConnection from_id to_id b)) evs)
      ! length (initiations b))) \<le> 1 \<and>
   (state (i_ready (initiations (run (snd (initiateConnection from_id to_id b)) evs)
      ! length (initiations b))) \<noteq> Pending \<longrightarrow>
    i_ready (initiations (run (snd (initiateConnection from_id to_id b)) (evs @ later))
      ! length (initiations b)) =
    i_ready (initiations (run (snd (initiateConnection from_id to_id b)) evs)
      ! length (initiations b))) \<and>
   (state (a_ready (acceptances (run (snd (acceptConnection m b)) evs)
      ! length (acceptances b))) \<noteq> Pending \<longrightarrow>
    state (a_ready (acceptances (run (snd (acceptConnection m b)) (evs @ later))
      ! length (acceptances b))) =
    state (a_ready (acceptances (run (snd (acceptConnection m b)) evs)
      ! length (acceptances b))))"
proof -
  let ?k = "length (initiations b)" and ?b = "snd (initiateConnection from_id to_id b)"
  let ?j = "length (acceptances b)" and ?a = "snd (acceptConnection m b)"
  have new: "?k < length (initiations ?b)"
    "if i_connecting (initiations ?b ! ?k) then i_ready (initiations ?b ! ?k) = new_promise
     else state (i_ready (initiations ?b ! ?k)) \<noteq> Pending \<and>
          settle_calls (i_ready (initiations ?b ! ?k)) = 1"
    by (simp_all add: initiateConnection_def Let_def)
  note guard = initiation_guard_run [OF new, of evs]
  from guard have calls: "settle_calls (i_ready (initiations (run ?b evs) ! ?k)) \<le> 1"
    by (cases "i_connecting (initiations (run ?b evs) ! ?k)") (simp_all add: new_promise_def)
  have init: "i_ready (initiations (run ?b (evs @ later)) ! ?k) =
      i_ready (initiations (run ?b evs) ! ?k)"
    if "state (i_ready (initiations (run ?b evs) ! ?k)) \<noteq> Pending"
  proof -
    from that guard have "\<not> i_connecting (initiations (run ?b evs) ! ?k)"
      by (cases "i_connecting (initiations (run ?b evs) ! ?k)") (simp_all add: new_promise_def)
    with guard initiation_decided_run [of ?k "run ?b evs" later] show ?thesis
      by (simp add: run_append)
  qed
  have "?j < length (acceptances ?a)"
    by (simp add: acceptConnection_def Let_def)
  then have len: "?j < length (acceptances (run ?a evs))"
    by (rule acceptances_length_run)
  have acc: "state (a_ready (acceptances (run ?a (evs @ later)) ! ?j)) =
      state (a_ready (acceptances (run ?a evs) ! ?j))"
    if "state (a_ready (acceptances (run ?a evs) ! ?j)) \<noteq> Pending"
    using accepted_ready_settled_run [OF len that, of later] by (simp add: run_append)
  from calls init acc show ?thesis by blast
qed

theorem connection_ready_settles_once_witness:
  "state (i_ready (initiations (run (snd (initiateConnection ''peer1'' ''peer2'' (Broker ''ws://relay'')))
      [PeerOut 0 PConnect]) ! length (initiations (Broker ''ws://relay'')))) \<noteq> Pending \<and>
   i_ready (initiations (run (snd (initiateConnection ''peer1'' ''peer2'' (Broker ''ws://relay'')))
      ([PeerOut 0 PConnect] @ [PeerOut 0 (PError (Error ''late''))]))
      ! length (initiations (Broker ''ws://relay''))) =
     \<lparr>state = Fulfilled (), settle_calls = 1\<rparr> \<and>
   state (a_ready (acceptances (run (snd (acceptConnection
      \<lparr>msg_type = ''connect'', msg_from = ''peer1'', msg_to = ''peer2'',
       msg_offer = \<lparr>sd_type = ''offer'', sd_body = ''O1''\<rparr>\<rparr> (Broker ''ws://relay'')))
      [PeerIn 0 (PError (Error ''ice failed''))]) ! length (acceptances (Broker ''ws://relay'')))) \<noteq> Pending \<and>
   state (a_ready (acceptances (run (snd (acceptConnection
      \<lparr>msg_type = ''connect'', msg_from = ''peer1'', msg_to = ''peer2'',
       msg_offer = \<lparr>sd_type = ''offer'', sd_body = ''O1''\<rparr>\<rparr> (Broker ''ws://relay'')))
      ([PeerIn 0 (PError (Error ''ice failed''))] @ [PeerIn 0 PConnect]))
      ! length (acceptances (Broker ''ws://relay'')))) = Rejected (Error ''ice failed'')"
  using connection_ready_settles_once
    [of "''peer1''" "''peer2''" "Broker ''ws://relay''" "[PeerOut 0 PConnect]"
        "[PeerOut 0 (PError (Error ''late''))]"
        "\<lparr>msg_type = ''connect'', msg_from = ''peer1'', msg_to = ''peer2'',
          msg_offer = \<lparr>sd_type = ''offer'', sd_body = ''O1''\<rparr>\<rparr>"]
    connection_ready_settles_once
    [of "''peer1''" "''peer2''" "Broker ''ws://relay''" "[PeerIn 0 (PError (Error ''ice failed''))]"
        "[PeerIn 0 PConnect]"
        "\<lparr>msg_type = ''connect'', msg_from = ''peer1'', msg_to = ''peer2'',
          msg_offer = \<lparr>sd_type = ''offer'', sd_body = ''O1''\<rparr>\<rparr>"]
  by (simp add: initiateConnection_def acceptConnection_def Broker_def Let_def modify_def
      init_on_connect_def init_on_error_def ready_on_connect_def ready_on_error_def
      once_error_reject_def accept_on_error_def new_promise_def resolve_def reject_def)

subsection \<open>Which event settles an initiated Connection\<close>

lemma undecided_stays:
  assumes "i_connecting c" "i_error_once c" "i_connect_once c" "state (i_ready c) = Pending"
    and "settles_initiation k b ev = None"
  shows "i_connecting (initiation_effect k b ev c) \<and> i_error_once (initiation_effect k b ev c) \<and>
         i_connect_once (initiation_effect k b ev c) \<and>
         state (i_ready (initiation_effect k b ev c)) = Pending"
proof (cases ev)
  case (Response cid r)
  with assms show ?thesis
    by (cases r) (simp_all add: request_then_def split: if_splits)
next
  case (PeerOut j pe)
  with assms show ?thesis
    by (cases pe) (simp_all split: if_splits)
qed (simp_all add: assms)

lemma undecided_settles:
  assumes "i_connecting c" "i_error_once c" "i_connect_once c" "state (i_ready c) = Pending"
    and "settles_initiation k b ev = Some s"
  shows "state (i_ready (initiation_effect k b ev c)) = s \<and>
         \<not> i_connecting (initiation_effect k b ev c)"
proof (cases ev)
  case (Response cid r)
  with assms show ?thesis
    by (cases r) (auto simp: request_catch_def state_reject split: if_splits)
next
  case (PeerOut j pe)
  with assms show ?thesis
    by (cases pe)
      (auto simp: init_on_error_def init_on_connect_def Let_def state_reject state_resolve
        split: if_splits)
qed (use assms in simp_all)

lemma first_settling_run:
  "k < length (initiations b) \<Longrightarrow> i_connecting (initiations b ! k) \<Longrightarrow>
   i_error_once (initiations b ! k) \<Longrightarrow> i_connect_once (initiations b ! k) \<Longrightarrow>
   state (i_ready (initiations b ! k)) = Pending \<Longrightarrow>
     state (i_ready (initiations (run b evs) ! k)) = first_settling k b evs"
proof (induction evs arbitrary: b)
  case Nil
  then show ?case by simp
next
  case (Cons ev evs)
  have len: "k < length (initiations (step b ev))"
    and eff: "initiations (step b ev) ! k = initiation_effect k b ev (initiations b ! k)"
    using Cons.prems(1) by (rule initiations_step)+
  show ?case
  proof (cases "settles_initiation k b ev")
    case None
    from undecided_stays [OF Cons.prems(2-5) None]
    have "i_connecting (initiations (step b ev) ! k)" "i_error_once (initiations (step b ev) ! k)"
      "i_connect_once (initiations (step b ev) ! k)"
      "state (i_ready (initiations (step b ev) ! k)) = Pending"
      unfolding eff by simp_all
    with Cons.IH [OF len] None show ?thesis by simp
  next
    case (Some s)
    from undecided_settles [OF Cons.prems(2-5) Some]
    have "state (i_ready (initiations (step b ev) ! k)) = s"
      "\<not> i_connecting (initiations (step b ev) ! k)"
      unfolding eff by simp_all
    with initiation_decided_run [OF len, of evs] Some show ?thesis by simp
  qed
qed

text \<open>
  Claim C4. The readiness of the Connection returned by \<open>initiateConnection\<close> is decided
  by the first of these events: the capability reports connected (fulfilled), the
  capability reports an error (rejected with it), a connect request of this initiation
  fails (rejected with the failure). It is pending when none of them has happened.
\<close>

theorem initiated_ready_first_event_wins:
  "state (i_ready (initiations (run (snd (initiateConnection from_id to_id b)) evs)
      ! length (initiations b))) =
     first_settling (length (initiations b)) (snd (initiateConnection from_id to_id b)) evs"
proof -
  let ?k = "length (initiations b)" and ?b = "snd (initiateConnection from_id to_id b)"
  have "?k < length (initiations ?b)" "i_connecting (initiations ?b ! ?k)"
    "i_error_once (initiations ?b ! ?k)" "i_connect_once (initiations ?b ! ?k)"
    "state (i_ready (initiations ?b ! ?k)) = Pending"
    by (simp_all add: initiateConnection_def Let_def new_promise_def)
  then show ?thesis by (rule first_settling_run)
qed

theorem initiated_ready_first_event_wins_witness:
  "state (i_ready (initiations (run (snd (initiateConnection ''peer1'' ''peer2'' (Broker ''ws://relay'')))
      [PeerOut 0 (PSignal \<lparr>sd_type = ''offer'', sd_body = ''O1''\<rparr>),
       Response 0 (Inl (Error ''no handler'')),
       PeerOut 0 PConnect]) ! length (initiations (Broker ''ws://relay'')))) =
     Rejected (Error ''no handler'')"
  using initiated_ready_first_event_wins
    [of "''peer1''" "''peer2''" "Broker ''ws://relay''"
        "[PeerOut 0 (PSignal \<lparr>sd_type = ''offer'', sd_body = ''O1''\<rparr>),
          Response 0 (Inl (Error ''no handler'')),
          PeerOut 0 PConnect]"]
  by (simp add: initiateConnection_def Broker_def Let_def init_on_signal_def request_def)

subsection \<open>The offer goes out, the answer comes back\<close>

lemma map_of_filter_fst:
  "map_of (filter (\<lambda>p. fst p \<noteq> c') xs) c = (if c = c' then None else map_of xs c)"
  by (induction xs) auto

lemma pending_step_keeps:
  assumes "map_of (pending b) cid = Some k" "cid < next_id b" "unanswered cid [ev]"
  shows "map_of (pending (step b ev)) cid = Some k \<and> cid < next_id (step b ev)"
proof (cases ev)
  case (Response c r)
  with assms show ?thesis
    by (simp add: receive_response_def map_of_filter_fst split: option.splits)
next
  case (PeerOut j pe)
  with assms show ?thesis
    by (cases pe) (auto simp: init_on_signal_def request_def Let_def)
qed (use assms in \<open>simp_all add: socket_onopen_def socket_onclose_def socket_onerror_def
      close_def Let_def frames\<close>)

lemma unanswered_Cons: "unanswered cid (ev # evs) = (unanswered cid [ev] \<and> unanswered cid evs)"
  by (cases ev) simp_all

lemma pending_run_keeps:
  "map_of (pending b) cid = Some k \<Longrightarrow> cid < next_id b \<Longrightarrow> unanswered cid evs \<Longrightarrow>
     map_of (pending (run b evs)) cid = Some k"
proof (induction evs arbitrary: b)
  case Nil
  then show ?case by simp
next
  case (Cons ev evs)
  from Cons.prems(3) have quiet: "unanswered cid [ev]" "unanswered cid evs"
    by (simp_all add: unanswered_Cons [of cid ev evs])
  from pending_step_keeps [OF Cons.prems(1,2) quiet(1)] Cons.IH [of "step b ev"] quiet(2)
  show ?case by simp
qed

lemma initiation_names_effect:
  "i_from (initiation_effect k b ev c) = i_from c \<and> i_to (initiation_effect k b ev c) = i_to c"
proof (cases ev)
  case (Response cid r)
  then show ?thesis
    by (cases r) (simp_all add: request_catch_def request_then_def)
next
  case (PeerOut j pe)
  then show ?thesis
    by (cases pe) (simp_all add: init_on_error_def init_on_connect_def Let_def)
qed simp_all

lemma initiation_names_run:
  "k < length (initiations b) \<Longrightarrow>
     k < length (initiations (run b evs)) \<and>
     i_from (initiations (run b evs) ! k) = i_from (initiations b ! k) \<and>
     i_to (initiations (run b evs) ! k) = i_to (initiations b ! k)"
proof (induction evs arbitrary: b)
  case Nil
  then show ?case by simp
next
  case (Cons ev evs)
  have len: "k < length (initiations (step b ev))"
    and eff: "initiations (step b ev) ! k = initiation_effect k b ev (initiations b ! k)"
    using Cons.prems(1) by (rule initiations_step)+
  from Cons.IH [OF len] eff initiation_names_effect [of k b ev "initiations b ! k"]
  show ?case by simp
qed

lemma other_signal_sends_nothing:
  "sd_type d \<noteq> ''offer'' \<Longrightarrow> step b (PeerOut k (PSignal d)) = b"
  by (simp add: init_on_signal_def)

lemma offer_step:
  assumes "k < length (initiations b)" "sd_type d = ''offer''"
  shows "step b (PeerOut k (PSignal d)) =
     request \<lparr>msg_type = ''connect'', msg_from = i_from (initiations b ! k),
       msg_to = i_to (initiations b ! k), msg_offer = d\<rparr> k b"
  using assms by (simp add: init_on_signal_def Let_def)

lemma answer_step:
  assumes "map_of (pending b) cid = Some k" "k < length (initiations b)"
  shows "initiations (step b (Response cid (Inr answer))) =
     (initiations b)[k := request_then answer (initiations b ! k)]"
    and "acceptances (step b (Response cid (Inr answer))) = acceptances b"
  using assms by (simp_all add: receive_response_def modify_def)

text \<open>
  Claim C1. Take the initiation created by \<open>initiateConnection(from, to)\<close> and let any
  events pass. When its capability then emits a signal of type \<open>offer\<close>, the broker hands
  exactly one more envelope to the socket: a fresh correlation id with the request
  \<open>{type: "connect", from, to, offer}\<close>. When, after any events that do not answer that
  request, the response to it arrives with an answer, the answer is fed with \<open>signal\<close>
  to the capability of this initiation, after everything fed to it before; no other
  capability is fed anything.
\<close>

theorem offer_requested_answer_fed:
  assumes "sd_type d = ''offer''"
    and "unanswered (next_id (run (snd (initiateConnection from_id to_id b)) evs)) evs'"
  shows
    "let k = length (initiations b);
         b1 = run (snd (initiateConnection from_id to_id b)) evs;
         b2 = step b1 (PeerOut k (PSignal d));
         b3 = run b2 evs';
         b4 = step b3 (Response (next_id b1) (Inr answer))
     in ws_sent (socket b2) = ws_sent (socket b1) @
          [\<lparr>env_id = next_id b1,
            env_message = \<lparr>msg_type = ''connect'', msg_from = from_id, msg_to = to_id,
              msg_offer = d\<rparr>\<rparr>] \<and>
        map i_peer (initiations b4) =
          (map i_peer (initiations b3))[k := signal answer (i_peer (initiations b3 ! k))] \<and>
        signalled (i_peer (initiations b4 ! k)) = signalled (i_peer (initiations b3 ! k)) @ [answer] \<and>
        map a_peer (acceptances b4) = map a_peer (acceptances b3)"
proof -
  define k where "k = length (initiations b)"
  define b0 where "b0 = snd (initiateConnection from_id to_id b)"
  define b1 where "b1 = run b0 evs"
  define b2 where "b2 = step b1 (PeerOut k (PSignal d))"
  define b3 where "b3 = run b2 evs'"
  define b4 where "b4 = step b3 (Response (next_id b1) (Inr answer))"
  have new: "k < length (initiations b0)" "i_from (initiations b0 ! k) = from_id"
    "i_to (initiations b0 ! k) = to_id"
    by (simp_all add: k_def b0_def initiateConnection_def Let_def)
  from initiation_names_run [OF new(1), of evs] new
  have k1: "k < length (initiations b1)" and names: "i_from (initiations b1 ! k) = from_id"
    "i_to (initiations b1 ! k) = to_id"
    by (simp_all add: b1_def)
  have b2: "b2 = request \<lparr>msg_type = ''connect'', msg_from = from_id, msg_to = to_id,
      msg_offer = d\<rparr> k b1"
    unfolding b2_def using offer_step [OF k1 assms(1)] names by simp
  then have sent: "ws_sent (socket b2) = ws_sent (socket b1) @
      [\<lparr>env_id = next_id b1,
        env_message = \<lparr>msg_type = ''connect'', msg_from = from_id, msg_to = to_id,
          msg_offer = d\<rparr>\<rparr>]"
    and waits: "map_of (pending b2) (next_id b1) = Some k" "next_id b1 < next_id b2"
    and k2: "k < length (initiations b2)"
    using k1 by (simp_all add: request_def)
  from assms(2) have "unanswered (next_id b1) evs'"
    by (simp add: b1_def b0_def)
  with waits have waits3: "map_of (pending b3) (next_id b1) = Some k"
    unfolding b3_def by (rule pending_run_keeps)
  from initiation_names_run [OF k2, of evs'] have k3: "k < length (initiations b3)"
    by (simp add: b3_def)
  have fed: "initiations b4 = (initiations b3)[k := request_then answer (initiations b3 ! k)]"
    and rest: "acceptances b4 = acceptances b3"
    unfolding b4_def using waits3 k3 by (rule answer_step)+
  from fed k3 have "map i_peer (initiations b4) =
      (map i_peer (initiations b3))[k := signal answer (i_peer (initiations b3 ! k))]"
    by (simp add: map_update request_then_def)
  moreover from fed k3 have "signalled (i_peer (initiations b4 ! k)) =
      signalled (i_peer (initiations b3 ! k)) @ [answer]"
    by (simp add: request_then_def signal_def)
  ultimately show ?thesis
    using sent rest
    unfolding Let_def k_def [symmetric] b0_def [symmetric] b1_def [symmetric]
      b2_def [symmetric] b3_def [symmetric] b4_def [symmetric]
    by simp
qed

theorem offer_requested_answer_fed_witness:
  "sd_type \<lparr>sd_type = ''offer'', sd_body = ''O1''\<rparr> = ''offer'' \<and>
   unanswered (next_id (run (snd (initiateConnection ''peer1'' ''peer2'' (Broker ''ws://relay'')))
     [SocketOpen])) [PeerOut 0 (PSignal \<lparr>sd_type = ''candidate'', sd_body = ''c''\<rparr>)] \<and>
   ws_sent (socket (run (snd (initiateConnection ''peer1'' ''peer2'' (Broker ''ws://relay'')))
     [SocketOpen, PeerOut 0 (PSignal \<lparr>sd_type = ''offer'', sd_body = ''O1''\<rparr>)])) =
     [\<lparr>env_id = 0, env_message = \<lparr>msg_type = ''connect'', msg_from = ''peer1'',
        msg_to = ''peer2'', msg_offer = \<lparr>sd_type = ''offer'', sd_body = ''O1''\<rparr>\<rparr>\<rparr>] \<and>
   signalled (i_peer (initiations (run (snd (initiateConnection ''peer1'' ''peer2'' (Broker ''ws://relay'')))
     [SocketOpen, PeerOut 0 (PSignal \<lparr>sd_type = ''offer'', sd_body = ''O1''\<rparr>),
      PeerOut 0 (PSignal \<lparr>sd_type = ''candidate'', sd_body = ''c''\<rparr>),
      Response 0 (Inr \<lparr>sd_type = ''answer'', sd_body = ''A1''\<rparr>)]) ! 0)) =
     [\<lparr>sd_type = ''answer'', sd_body = ''A1''\<rparr>]"
  using offer_requested_answer_fed
    [of "\<lparr>sd_type = ''offer'', sd_body = ''O1''\<rparr>" "''peer1''" "''peer2''" "Broker ''ws://relay''"
        "[SocketOpen]" "[PeerOut 0 (PSignal \<lparr>sd_type = ''candidate'', sd_body = ''c''\<rparr>)]"
        "\<lparr>sd_type = ''answer'', sd_body = ''A1''\<rparr>"]
  by (simp add: initiateConnection_def Broker_def Let_def init_on_signal_def request_def
      receive_response_def modify_def request_then_def signal_def SimplePeer_def
      socket_onopen_def ReconnectingWebSocket_def)

end
